theory Spec2Isabelle
  imports Complex_Main
begin

section \<open>Text primitives\<close>

text \<open>
  The rule-based agent (\<^verbatim>\<open>ai_agent.py\<close>) works on Python \<^verbatim>\<open>str\<close> values.  Text is
  modelled as \<^typ>\<open>string\<close>; a character stands for the code point of the same number, so the
  model covers text whose code points are below 256.  The character classes below are the
  ones Python 3 uses for these code points: \<^verbatim>\<open>\d\<close> is 0-9, \<^verbatim>\<open>\w\<close> is
  alphanumeric-or-underscore, \<^verbatim>\<open>\s\<close> and \<^verbatim>\<open>str.strip\<close> use \<^verbatim>\<open>str.isspace\<close>.
\<close>

definition ord :: "char \<Rightarrow> nat" where
  "ord c = of_char c"

definition is_digit :: "char \<Rightarrow> bool" where
  "is_digit c = (48 \<le> ord c \<and> ord c \<le> 57)"

definition is_upper :: "char \<Rightarrow> bool" where
  "is_upper c = ((65 \<le> ord c \<and> ord c \<le> 90) \<or> (192 \<le> ord c \<and> ord c \<le> 214)
                 \<or> (216 \<le> ord c \<and> ord c \<le> 222))"

definition is_lower :: "char \<Rightarrow> bool" where
  "is_lower c = ((97 \<le> ord c \<and> ord c \<le> 122) \<or> (224 \<le> ord c \<and> ord c \<le> 246)
                 \<or> (248 \<le> ord c \<and> ord c \<le> 254))"

definition is_word :: "char \<Rightarrow> bool" where
  "is_word c = (is_digit c \<or> (65 \<le> ord c \<and> ord c \<le> 90) \<or> ord c = 95
                \<or> (97 \<le> ord c \<and> ord c \<le> 122)
                \<or> ord c = 170 \<or> ord c = 178 \<or> ord c = 179 \<or> ord c = 181
                \<or> ord c = 185 \<or> ord c = 186 \<or> (188 \<le> ord c \<and> ord c \<le> 190)
                \<or> (192 \<le> ord c \<and> ord c \<le> 214) \<or> (216 \<le> ord c \<and> ord c \<le> 246)
                \<or> 248 \<le> ord c)"

definition is_space :: "char \<Rightarrow> bool" where
  "is_space c = ((9 \<le> ord c \<and> ord c \<le> 13) \<or> (28 \<le> ord c \<and> ord c \<le> 32)
                 \<or> ord c = 133 \<or> ord c = 160)"

text \<open>\<^verbatim>\<open>str.lower\<close>: the upper-case letters below 256 move up by 32.\<close>

definition lower_char :: "char \<Rightarrow> char" where
  "lower_char c = (if is_upper c then char_of (ord c + 32) else c)"

definition lower :: "string \<Rightarrow> string" where
  "lower s = map lower_char s"

text \<open>
  \<^verbatim>\<open>str.upper\<close>: the lower-case letters move down by 32 and the sharp s (223) becomes
  \<^verbatim>\<open>SS\<close>.  The upper-case forms of the code points 181 and 255 lie above 255; the
  model leaves these two unchanged.
\<close>

definition upper_char :: "char \<Rightarrow> string" where
  "upper_char c = (if is_lower c then [char_of (ord c - 32)]
                   else if ord c = 223 then ''SS'' else [c])"

definition upper :: "string \<Rightarrow> string" where
  "upper s = concat (map upper_char s)"

text \<open>\<^verbatim>\<open>str.strip()\<close> removes leading and trailing white space.\<close>

definition strip :: "string \<Rightarrow> string" where
  "strip s = rev (dropWhile is_space (rev (dropWhile is_space s)))"

text \<open>\<^verbatim>\<open>w in s\<close> on strings: \<open>w\<close> occurs in \<open>s\<close> as a contiguous piece.\<close>

fun starts_with :: "string \<Rightarrow> string \<Rightarrow> bool" where
  "starts_with s [] = True"
| "starts_with [] (c # w) = False"
| "starts_with (d # s) (c # w) = (d = c \<and> starts_with s w)"

fun str_in :: "string \<Rightarrow> string \<Rightarrow> bool" where
  "str_in w [] = (w = [])"
| "str_in w (c # s) = (starts_with (c # s) w \<or> str_in w s)"

text \<open>\<^verbatim>\<open>str.title()\<close>, used on a month abbreviation: each run of letters starts with a
  capital and continues in lower case.\<close>

fun title_from :: "bool \<Rightarrow> string \<Rightarrow> string" where
  "title_from inword [] = []"
| "title_from inword (c # s) =
     (if is_upper c \<or> is_lower c
      then (if inword then [lower_char c] else upper_char c) @ title_from True s
      else c # title_from False s)"

definition title :: "string \<Rightarrow> string" where
  "title s = title_from False s"

text \<open>\<^verbatim>\<open>int(s)\<close> on a string of decimal digits.  CPython refuses more than 4300 digits
  with a \<^verbatim>\<open>ValueError\<close>.\<close>

datatype error =
    ValueError | KeyError | IndexError | TypeError | AttributeError
  | RequestException | JSONDecodeError | OracleError

definition digit_val :: "char \<Rightarrow> nat" where
  "digit_val c = ord c - 48"

definition digits_val :: "string \<Rightarrow> nat" where
  "digits_val ds = foldl (\<lambda>n c. 10 * n + digit_val c) 0 ds"

definition py_int :: "string \<Rightarrow> error + int" where
  "py_int ds = (if ds = [] \<or> \<not> list_all is_digit ds \<or> 4300 < length ds then Inl ValueError
                else Inr (int (digits_val ds)))"

section \<open>Regular expressions\<close>

text \<open>
  The patterns of the agent use literals, the classes \<^verbatim>\<open>\d \w \s\<close> with the
  repetitions \<^verbatim>\<open>+\<close>, \<^verbatim>\<open>{m}\<close> and \<^verbatim>\<open>{m,n}\<close>, sequence, alternation, an optional
  group, the word boundary \<^verbatim>\<open>\b\<close> and capture groups.  \<open>rmatch\<close> is the backtracking
  matcher of Python's \<^verbatim>\<open>re\<close> for this fragment, written as a list of successes: the
  list holds every way the pattern can match at the current position, in the order in which
  backtracking tries them (alternatives left to right, repetitions longest first), so the
  match Python reports is the head of the list.  A matcher state is the character before the
  position (for \<^verbatim>\<open>\b\<close>), the rest of the text, and the groups captured so far.
\<close>

datatype cls = Digit | WordChar | Space

fun in_cls :: "cls \<Rightarrow> char \<Rightarrow> bool" where
  "in_cls Digit c = is_digit c"
| "in_cls WordChar c = is_word c"
| "in_cls Space c = is_space c"

datatype rx =
    Lit string
  | Rep cls nat "nat option"
  | Seq rx rx
  | Alt rx rx
  | Opt rx
  | WordB
  | Grp nat rx

type_synonym groups = "nat \<rightharpoonup> string"
type_synonym mstate = "char option \<times> string \<times> groups"

definition consume :: "nat \<Rightarrow> mstate \<Rightarrow> mstate" where
  "consume k st = (case st of (p, s, g) \<Rightarrow>
     (if k = 0 then p else Some (s ! (k - 1)), drop k s, g))"

definition same_text :: "bool \<Rightarrow> string \<Rightarrow> string \<Rightarrow> bool" where
  "same_text ic a b = (if ic then lower a = lower b else a = b)"

definition word_before :: "char option \<Rightarrow> bool" where
  "word_before p = (case p of None \<Rightarrow> False | Some c \<Rightarrow> is_word c)"

definition word_after :: "string \<Rightarrow> bool" where
  "word_after s = (case s of [] \<Rightarrow> False | c # _ \<Rightarrow> is_word c)"

fun rmatch :: "bool \<Rightarrow> rx \<Rightarrow> mstate \<Rightarrow> mstate list" where
  "rmatch ic (Lit w) (p, s, g) =
     (if length w \<le> length s \<and> same_text ic (take (length w) s) w
      then [consume (length w) (p, s, g)] else [])"
| "rmatch ic (Rep c lo hi) (p, s, g) =
     (let n = length (takeWhile (in_cls c) s);
          m = (case hi of None \<Rightarrow> n | Some h \<Rightarrow> min h n)
      in map (\<lambda>k. consume k (p, s, g)) (rev [lo..<Suc m]))"
| "rmatch ic (Seq a b) st = concat (map (rmatch ic b) (rmatch ic a st))"
| "rmatch ic (Alt a b) st = rmatch ic a st @ rmatch ic b st"
| "rmatch ic (Opt a) st = rmatch ic a st @ [st]"
| "rmatch ic WordB (p, s, g) = (if word_before p \<noteq> word_after s then [(p, s, g)] else [])"
| "rmatch ic (Grp n a) (p, s, g) =
     map (\<lambda>(p', s', g'). (p', s', g'(n \<mapsto> take (length s - length s') s)))
         (rmatch ic a (p, s, g))"

fun seqs :: "rx list \<Rightarrow> rx" where
  "seqs [] = Lit []"
| "seqs [r] = r"
| "seqs (r # rs) = Seq r (seqs rs)"

fun alts :: "rx list \<Rightarrow> rx" where
  "alts [] = Lit []"
| "alts [r] = r"
| "alts (r # rs) = Alt r (alts rs)"

definition first_groups :: "mstate list \<Rightarrow> groups option" where
  "first_groups rs = (case rs of [] \<Rightarrow> None | (p, s, g) # _ \<Rightarrow> Some g)"

text \<open>\<^verbatim>\<open>re.match\<close> tries the start of the text only; \<^verbatim>\<open>re.search\<close> tries every
  position from left to right and reports the first position with a match.  Both return
  the captured groups, or \<open>None\<close>.\<close>

definition re_match :: "bool \<Rightarrow> rx \<Rightarrow> string \<Rightarrow> groups option" where
  "re_match ic r s = first_groups (rmatch ic r (None, s, Map.empty))"

fun search_from :: "bool \<Rightarrow> rx \<Rightarrow> char option \<Rightarrow> string \<Rightarrow> groups option" where
  "search_from ic r p [] = first_groups (rmatch ic r (p, [], Map.empty))"
| "search_from ic r p (c # s) =
     (case first_groups (rmatch ic r (p, c # s, Map.empty)) of
        Some g \<Rightarrow> Some g
      | None \<Rightarrow> search_from ic r (Some c) s)"

definition re_search :: "bool \<Rightarrow> rx \<Rightarrow> string \<Rightarrow> groups option" where
  "re_search ic r s = search_from ic r None s"

section \<open>Floats\<close>

text \<open>
  A Python \<^verbatim>\<open>float\<close>: a finite value, given by the rational number it denotes, an
  infinity, or NaN.  \<open>float_lt\<close> is \<^verbatim>\<open><\<close> and \<open>float_le\<close> is \<^verbatim>\<open><=\<close>; every comparison
  with NaN is false.
\<close>

datatype pyfloat = NegInf | Finite rat | PosInf | NaN

fun float_lt :: "pyfloat \<Rightarrow> pyfloat \<Rightarrow> bool" where
  "float_lt (Finite x) (Finite y) = (x < y)"
| "float_lt NegInf (Finite y) = True"
| "float_lt NegInf PosInf = True"
| "float_lt (Finite x) PosInf = True"
| "float_lt a b = False"

definition float_le :: "pyfloat \<Rightarrow> pyfloat \<Rightarrow> bool" where
  "float_le a b = (float_lt a b \<or> (a = b \<and> a \<noteq> NaN))"

section \<open>JSON values\<close>

text \<open>
  What \<^verbatim>\<open>response.json()\<close> and \<^verbatim>\<open>json.loads\<close> produce: \<^verbatim>\<open>None\<close>, booleans, numbers,
  strings, lists and dictionaries.  A dictionary is an association list read with
  \<^const>\<open>map_of\<close>.  Python's parser also reads the literals \<^verbatim>\<open>NaN\<close> and \<^verbatim>\<open>Infinity\<close> as
  floats.
\<close>

datatype json =
    JNull
  | JBool bool
  | JInt int
  | JFloat pyfloat
  | JStr string
  | JArr "json list"
  | JObj "(string \<times> json) list"

type_synonym dict = "(string \<times> json) list"

text \<open>Python truth value of a JSON value, as used by \<^verbatim>\<open>if\<close>, \<^verbatim>\<open>not\<close> and \<^verbatim>\<open>and\<close>.\<close>

fun truthy :: "json \<Rightarrow> bool" where
  "truthy JNull = False"
| "truthy (JBool b) = b"
| "truthy (JInt i) = (i \<noteq> 0)"
| "truthy (JFloat q) = (q \<noteq> Finite 0)"
| "truthy (JStr s) = (s \<noteq> [])"
| "truthy (JArr xs) = (xs \<noteq> [])"
| "truthy (JObj kv) = (kv \<noteq> [])"

text \<open>\<^verbatim>\<open>d.get(k)\<close>: the value, or \<^verbatim>\<open>None\<close> when the key is absent.\<close>

definition dict_get :: "dict \<Rightarrow> string \<Rightarrow> json" where
  "dict_get d k = (case map_of d k of None \<Rightarrow> JNull | Some v \<Rightarrow> v)"

text \<open>\<^verbatim>\<open>d[k]\<close>: the value, or \<^verbatim>\<open>KeyError\<close>.\<close>

definition dict_item :: "dict \<Rightarrow> string \<Rightarrow> error + json" where
  "dict_item d k = (case map_of d k of None \<Rightarrow> Inl KeyError | Some v \<Rightarrow> Inr v)"

text \<open>\<^verbatim>\<open>xs[i]\<close> on a list: a negative index counts from the end, an index out of range
  raises \<^verbatim>\<open>IndexError\<close>.\<close>

definition list_item :: "'a list \<Rightarrow> int \<Rightarrow> error + 'a" where
  "list_item xs i =
     (if 0 \<le> i
      then (if i < int (length xs) then Inr (xs ! nat i) else Inl IndexError)
      else (if - int (length xs) \<le> i then Inr (xs ! nat (int (length xs) + i))
            else Inl IndexError))"

section \<open>Calendar dates\<close>

record date =
  year :: nat
  month :: nat
  day :: nat

definition leap_year :: "nat \<Rightarrow> bool" where
  "leap_year y = (y mod 4 = 0 \<and> (y mod 100 \<noteq> 0 \<or> y mod 400 = 0))"

definition days_in_month :: "nat \<Rightarrow> nat \<Rightarrow> nat" where
  "days_in_month y m =
     (if m = 2 then (if leap_year y then 29 else 28)
      else if m = 4 \<or> m = 6 \<or> m = 9 \<or> m = 11 then 30 else 31)"

text \<open>\<^verbatim>\<open>datetime(year, month, day)\<close> raises \<^verbatim>\<open>ValueError\<close> unless the three numbers
  form a date of the years 1 to 9999.\<close>

definition valid_date :: "date \<Rightarrow> bool" where
  "valid_date d = (1 \<le> year d \<and> year d \<le> 9999 \<and> 1 \<le> month d \<and> month d \<le> 12
                   \<and> 1 \<le> day d \<and> day d \<le> days_in_month (year d) (month d))"

definition datetime :: "nat \<Rightarrow> nat \<Rightarrow> nat \<Rightarrow> error + date" where
  "datetime y m d =
     (if valid_date \<lparr>year = y, month = m, day = d\<rparr>
      then Inr \<lparr>year = y, month = m, day = d\<rparr> else Inl ValueError)"

definition date_less :: "date \<Rightarrow> date \<Rightarrow> bool" where
  "date_less a b = (year a < year b \<or> (year a = year b \<and>
                     (month a < month b \<or> (month a = month b \<and> day a < day b))))"

definition digit_char :: "nat \<Rightarrow> char" where
  "digit_char n = char_of (48 + n mod 10)"

definition pad2 :: "nat \<Rightarrow> string" where
  "pad2 n = [digit_char (n div 10), digit_char n]"

definition pad4 :: "nat \<Rightarrow> string" where
  "pad4 n = [digit_char (n div 1000), digit_char (n div 100), digit_char (n div 10),
             digit_char n]"

text \<open>\<^verbatim>\<open>strftime("%Y-%m-%d")\<close>, with the year written with four digits.\<close>

definition strftime :: "date \<Rightarrow> string" where
  "strftime d = pad4 (year d) @ ''-'' @ pad2 (month d) @ ''-'' @ pad2 (day d)"

text \<open>\<^verbatim>\<open>datetime.strptime(s, "%b").month\<close>: the number of the month with the abbreviated
  name \<open>s\<close>, or \<^verbatim>\<open>ValueError\<close>.\<close>

definition month_names :: "(string \<times> nat) list" where
  "month_names =
     [(''Jan'', 1), (''Feb'', 2), (''Mar'', 3), (''Apr'', 4), (''May'', 5), (''Jun'', 6),
      (''Jul'', 7), (''Aug'', 8), (''Sep'', 9), (''Oct'', 10), (''Nov'', 11), (''Dec'', 12)]"

definition strptime_month :: "string \<Rightarrow> error + nat" where
  "strptime_month s =
     (case map_of month_names s of None \<Rightarrow> Inl ValueError | Some m \<Rightarrow> Inr m)"

section \<open>The rule-based agent\<close>

subsection \<open>The patterns of \<^verbatim>\<open>ai_agent.py\<close>\<close>

text \<open>\<^verbatim>\<open>\b(book|reserve)\b\<close>\<close>

definition book_verb_re :: rx where
  "book_verb_re = seqs [WordB, Grp 1 (alts [Lit ''book'', Lit ''reserve'']), WordB]"

text \<open>\<^verbatim>\<open>(\d{1,2})(st|nd|rd|th)?\s+(jan|feb|mar|apr|may|jun|jul|aug|sep|oct|nov|dec)\<close>\<close>

definition date_re :: rx where
  "date_re = seqs
     [Grp 1 (Rep Digit 1 (Some 2)),
      Opt (Grp 2 (alts [Lit ''st'', Lit ''nd'', Lit ''rd'', Lit ''th''])),
      Rep Space 1 None,
      Grp 3 (alts [Lit ''jan'', Lit ''feb'', Lit ''mar'', Lit ''apr'', Lit ''may'', Lit ''jun'',
                   Lit ''jul'', Lit ''aug'', Lit ''sep'', Lit ''oct'', Lit ''nov'', Lit ''dec''])]"

text \<open>\<^verbatim>\<open>(\w+)\s+(\w+)\s+(\d{4}-\d{2}-\d{2})\s+(ECONOMY|BUSINESS|FIRST)\<close>\<close>

definition passenger_re :: rx where
  "passenger_re = seqs
     [Grp 1 (Rep WordChar 1 None), Rep Space 1 None,
      Grp 2 (Rep WordChar 1 None), Rep Space 1 None,
      Grp 3 (seqs [Rep Digit 4 (Some 4), Lit ''-'', Rep Digit 2 (Some 2), Lit ''-'',
                   Rep Digit 2 (Some 2)]),
      Rep Space 1 None,
      Grp 4 (alts [Lit ''ECONOMY'', Lit ''BUSINESS'', Lit ''FIRST''])]"

text \<open>\<^verbatim>\<open>\b(book option|book cheapest|book\s+\d+)\b\<close>\<close>

definition book_select_re :: rx where
  "book_select_re = seqs
     [WordB,
      Grp 1 (alts [Lit ''book option'', Lit ''book cheapest'',
                   seqs [Lit ''book'', Rep Space 1 None, Rep Digit 1 None]]),
      WordB]"

text \<open>\<^verbatim>\<open>option\s+(\d+)\<close>\<close>

definition option_re :: rx where
  "option_re = seqs [Lit ''option'', Rep Space 1 None, Grp 1 (Rep Digit 1 None)]"

text \<open>\<^verbatim>\<open>\b(no|don't|do not|not now|cancel|exit|stop)\b\<close>\<close>

definition decline_re :: rx where
  "decline_re = seqs
     [WordB,
      Grp 1 (alts [Lit ''no'', Lit (''don'' @ [CHR 0x27] @ ''t''), Lit ''do not'',
                   Lit ''not now'', Lit ''cancel'', Lit ''exit'', Lit ''stop'']),
      WordB]"

text \<open>\<^verbatim>\<open>match.group(n)\<close> for a group that took part in the match.\<close>

definition group :: "groups \<Rightarrow> nat \<Rightarrow> string" where
  "group g n = (case g n of None \<Rightarrow> [] | Some w \<Rightarrow> w)"

subsection \<open>The outside world\<close>

text \<open>
  The language model and the tool server are opaque.  A call of \<^verbatim>\<open>llm.invoke\<close> either
  raises or yields the text of the completion.  A call of \<^verbatim>\<open>requests.post\<close> either
  fails on the network or yields a response with a status code and a body; the body is
  given by the JSON value it parses to, if any.
\<close>

datatype http_outcome = ConnectionFailure | HttpResponse nat "json option"

text \<open>\<^verbatim>\<open>requests.post(url, json=..., timeout=15).json()\<close>: no status check, no handler.\<close>

definition post_json :: "http_outcome \<Rightarrow> error + json" where
  "post_json r = (case r of
       ConnectionFailure \<Rightarrow> Inl RequestException
     | HttpResponse status None \<Rightarrow> Inl JSONDecodeError
     | HttpResponse status (Some body) \<Rightarrow> Inr body)"

definition search_flights :: "(string \<Rightarrow> json \<Rightarrow> http_outcome) \<Rightarrow> dict \<Rightarrow> error + json" where
  "search_flights tool_server params =
     post_json (tool_server ''search_flights'' (JObj [(''args'', JObj params)]))"

definition create_oneway_booking ::
  "(string \<Rightarrow> json \<Rightarrow> http_outcome) \<Rightarrow> dict \<Rightarrow> error + json" where
  "create_oneway_booking tool_server payload =
     post_json (tool_server ''create_oneway_booking'' (JObj [(''args'', JObj payload)]))"

text \<open>
  The gateway of \<^verbatim>\<open>server_mcp.py\<close>, for comparison: \<^verbatim>\<open>post_request\<close> checks the
  status with \<^verbatim>\<open>raise_for_status\<close> (an error for the codes 400 to 599) and turns every
  \<^verbatim>\<open>RequestException\<close>, which includes a body that is not JSON, into a dictionary
  with the key \<^verbatim>\<open>error\<close>.  The message text is not modelled.
\<close>

definition post_request :: "http_outcome \<Rightarrow> json" where
  "post_request r = (case r of
       ConnectionFailure \<Rightarrow> JObj [(''error'', JStr ''RequestException'')]
     | HttpResponse status body \<Rightarrow>
         (if 400 \<le> status \<and> status < 600 then JObj [(''error'', JStr ''HTTPError'')]
          else (case body of
                  None \<Rightarrow> JObj [(''error'', JStr ''JSONDecodeError'')]
                | Some j \<Rightarrow> j)))"

subsection \<open>Intent\<close>

text \<open>\<open>oracle\<close> is what \<^verbatim>\<open>llm.invoke(prompt).content\<close> gives for the classification
  prompt.\<close>

definition detect_intent :: "string \<Rightarrow> error + string \<Rightarrow> error + string" where
  "detect_intent user_input oracle =
     (let text = lower user_input in
      if re_search False book_verb_re text \<noteq> None then Inr ''BOOK_FLIGHT''
      else (case oracle of Inl e \<Rightarrow> Inl e | Inr content \<Rightarrow> Inr (strip content)))"

subsection \<open>Parameter extraction\<close>

text \<open>
  The attempt through the language model.  \<open>oracle\<close> is the outcome of
  \<^verbatim>\<open>json.loads(llm.invoke(llm_prompt).content)\<close>: an exception or a JSON value.  Every
  exception is swallowed, also the \<^verbatim>\<open>AttributeError\<close> of \<^verbatim>\<open>parsed.get\<close> on a value
  that is no dictionary.
\<close>

definition llm_attempt :: "error + json \<Rightarrow> dict option" where
  "llm_attempt oracle = (case oracle of
       Inr (JObj parsed) \<Rightarrow>
         (if truthy (dict_get parsed ''origin'') \<and> truthy (dict_get parsed ''destination'')
             \<and> truthy (dict_get parsed ''departDate'')
          then Some parsed else None)
     | _ \<Rightarrow> None)"

definition city_map :: "(string \<times> string) list" where
  "city_map =
     [(''mumbai'', ''BOM''), (''bombay'', ''BOM''),
      (''delhi'', ''DEL''),
      (''bengaluru'', ''BLR''), (''bangalore'', ''BLR''),
      (''kolkata'', ''CCU''),
      (''ranchi'', ''IXR'')]"

text \<open>The loop over \<^verbatim>\<open>city_map.items()\<close>: a later city overwrites an earlier one.\<close>

fun scan_cities ::
  "string \<Rightarrow> (string \<times> string) list \<Rightarrow> string option \<times> string option
     \<Rightarrow> string option \<times> string option" where
  "scan_cities text [] od = od"
| "scan_cities text ((city, code) # rest) (origin, destination) =
     scan_cities text rest
       (if str_in (''from '' @ city) text then Some code else origin,
        if str_in (''to '' @ city) text then Some code else destination)"

definition bind :: "error + 'a \<Rightarrow> ('a \<Rightarrow> error + 'b) \<Rightarrow> error + 'b" where
  "bind m f = (case m of Inl e \<Rightarrow> Inl e | Inr x \<Rightarrow> f x)"

definition regex_fallback :: "date \<Rightarrow> string \<Rightarrow> error + dict" where
  "regex_fallback today user_input =
     (let text = lower user_input;
          (origin, destination) = scan_cities text city_map (None, None);
          date_match = re_search False date_re text
      in case (origin, destination, date_match) of
           (Some org, Some dst, Some m) \<Rightarrow>
             bind (py_int (group m 1)) (\<lambda>d.
             bind (strptime_month (title (group m 3))) (\<lambda>mon.
             bind (datetime (year today) mon (nat d)) (\<lambda>candidate.
             let y = (if date_less candidate today then year today + 1 else year today) in
             bind (datetime y mon (nat d)) (\<lambda>depart.
             Inr [(''origin'', JStr org),
                  (''destination'', JStr dst),
                  (''departDate'', JStr (strftime depart)),
                  (''tripType'', JStr ''ONEWAY''),
                  (''adults'', JInt 1),
                  (''cabin'', JStr ''ECONOMY'')]))))
         | _ \<Rightarrow> Inr [])"

definition extract_search_params :: "date \<Rightarrow> error + json \<Rightarrow> string \<Rightarrow> error + dict" where
  "extract_search_params today oracle user_input =
     (case llm_attempt oracle of
        Some parsed \<Rightarrow> Inr parsed
      | None \<Rightarrow> regex_fallback today user_input)"

subsection \<open>Utilities\<close>

text \<open>
  \<^verbatim>\<open>sorted\<close> with a key that is a float.  All keys are computed first; then the list is
  sorted with \<^verbatim>\<open><\<close> on the keys alone.  The procedure is the one of CPython 3.11 for a
  list of fewer than 64 elements: \<open>count_run\<close> finds the run that starts the list (either no
  element is less than the one before it, or each one is, and then the run is reversed), and
  \<open>binarysort\<close> inserts the elements after the run one by one, each at the place a binary
  search gives.  With a NaN among the keys the result need not be in order: the keys
  3, NaN, 1 are one run, and stay as they are.  A longer list CPython cuts into runs that it
  sorts this way and then merges; when no key is NaN that gives the same list as here.
\<close>

fun count_asc :: "pyfloat \<Rightarrow> pyfloat list \<Rightarrow> nat" where
  "count_asc prev [] = 0"
| "count_asc prev (k # ks) = (if float_lt k prev then 0 else Suc (count_asc k ks))"

fun count_desc :: "pyfloat \<Rightarrow> pyfloat list \<Rightarrow> nat" where
  "count_desc prev [] = 0"
| "count_desc prev (k # ks) = (if float_lt k prev then Suc (count_desc k ks) else 0)"

text \<open>The length of the first run, and whether it descends.\<close>

fun count_run :: "pyfloat list \<Rightarrow> nat \<times> bool" where
  "count_run [] = (0, False)"
| "count_run [k] = (1, False)"
| "count_run (k # k' # ks) =
     (if float_lt k' k then (2 + count_desc k' ks, True) else (2 + count_asc k' ks, False))"

text \<open>The binary search of \<open>binarysort\<close> in \<open>a[l:r]\<close>: the place of \<open>pivot\<close>.\<close>

function bisect :: "pyfloat \<Rightarrow> pyfloat list \<Rightarrow> nat \<Rightarrow> nat \<Rightarrow> nat" where
  "bisect pivot a l r =
     (if l < r
      then (if float_lt pivot (a ! (l + (r - l) div 2))
            then bisect pivot a l (l + (r - l) div 2)
            else bisect pivot a (l + (r - l) div 2 + 1) r)
      else l)"
  by pat_completeness auto
termination
  by (relation "measure (\<lambda>(pivot, a, l, r). r - l)") auto

declare bisect.simps [simp del]

definition insert_pivot :: "(pyfloat \<times> 'a) list \<Rightarrow> pyfloat \<times> 'a \<Rightarrow> (pyfloat \<times> 'a) list" where
  "insert_pivot run x =
     (let l = bisect (fst x) (map fst run) 0 (length run) in take l run @ x # drop l run)"

definition binarysort :: "(pyfloat \<times> 'a) list \<Rightarrow> (pyfloat \<times> 'a) list \<Rightarrow> (pyfloat \<times> 'a) list" where
  "binarysort run rest = foldl insert_pivot run rest"

definition py_sorted :: "(pyfloat \<times> 'a) list \<Rightarrow> (pyfloat \<times> 'a) list" where
  "py_sorted kds = (case count_run (map fst kds) of
       (n, descending) \<Rightarrow>
         binarysort (if descending then rev (take n kds) else take n kds) (drop n kds))"

text \<open>
  \<^verbatim>\<open>sorted(flights, key=lambda f: float(f["price"]))[:limit]\<close>.  The conversion
  \<^verbatim>\<open>float\<close> is a parameter \<open>to_float\<close>: it may raise, it may give NaN, and it stands for
  the rounding and parsing of Python.  Only a list can pass: iterating a dictionary or a
  string yields strings, which have no item \<^verbatim>\<open>"price"\<close>, and the other values cannot be
  iterated.
\<close>

definition price_key ::
  "(json \<Rightarrow> error + pyfloat) \<Rightarrow> json \<Rightarrow> error + (pyfloat \<times> dict)" where
  "price_key to_float f = (case f of
       JObj d \<Rightarrow> bind (dict_item d ''price'') (\<lambda>v. bind (to_float v) (\<lambda>k. Inr (k, d)))
     | _ \<Rightarrow> Inl TypeError)"

fun price_keys ::
  "(json \<Rightarrow> error + pyfloat) \<Rightarrow> json list \<Rightarrow> error + (pyfloat \<times> dict) list" where
  "price_keys to_float [] = Inr []"
| "price_keys to_float (f # fs) =
     bind (price_key to_float f) (\<lambda>kd. bind (price_keys to_float fs) (\<lambda>kds. Inr (kd # kds)))"

definition get_cheapest_flights ::
  "(json \<Rightarrow> error + pyfloat) \<Rightarrow> json \<Rightarrow> nat \<Rightarrow> error + dict list" where
  "get_cheapest_flights to_float flights limit = (case flights of
       JArr fs \<Rightarrow> bind (price_keys to_float fs) (\<lambda>kds. Inr (take limit (map snd (py_sorted kds))))
     | JObj d \<Rightarrow> (if d = [] then Inr [] else Inl TypeError)
     | JStr s \<Rightarrow> (if s = [] then Inr [] else Inl TypeError)
     | _ \<Rightarrow> Inl TypeError)"

definition parse_passenger_details :: "string \<Rightarrow> dict option" where
  "parse_passenger_details text =
     (case re_match True passenger_re (strip text) of
        None \<Rightarrow> None
      | Some m \<Rightarrow> Some [(''firstName'', JStr (group m 1)),
                        (''lastName'', JStr (group m 2)),
                        (''dob'', JStr (group m 3)),
                        (''travellerClass'', JStr (upper (group m 4)))])"

subsection \<open>The main loop\<close>

datatype conv_state = IDLE | SEARCH_DONE | AWAITING_PASSENGER_DETAILS

record session =
  conversation_state :: conv_state
  last_flights :: "dict list"
  selected_flight :: "dict option"

definition initial :: session where
  "initial = \<lparr>conversation_state = IDLE, last_flights = [], selected_flight = None\<rparr>"

text \<open>
  One turn of the loop: the line the user types, the day it is, and what the language model
  and the tool server answer when they are asked during this turn.  \<open>classify_reply\<close> and
  \<open>chat_reply\<close> are the outcomes of \<^verbatim>\<open>llm.invoke(prompt).content\<close> for the
  classification and the chat prompt, \<open>extract_reply\<close> is the outcome of
  \<^verbatim>\<open>json.loads(llm.invoke(llm_prompt).content)\<close>.
\<close>

record turn =
  user_input :: string
  today :: date
  classify_reply :: "error + string"
  extract_reply :: "error + json"
  chat_reply :: "error + string"
  tool_server :: "string \<Rightarrow> json \<Rightarrow> http_outcome"

text \<open>The items a \<^verbatim>\<open>print\<close> reads from an offer; a missing one is a \<^verbatim>\<open>KeyError\<close>.  The
  printed text itself is not modelled.\<close>

fun dict_items :: "dict \<Rightarrow> string list \<Rightarrow> error + json list" where
  "dict_items d [] = Inr []"
| "dict_items d (k # ks) =
     bind (dict_item d k) (\<lambda>v. bind (dict_items d ks) (\<lambda>vs. Inr (v # vs)))"

fun print_offers :: "dict list \<Rightarrow> error + unit" where
  "print_offers [] = Inr ()"
| "print_offers (f # fs) =
     bind (dict_items f [''origin'', ''destination'', ''price'', ''currency'', ''offerId''])
       (\<lambda>_. print_offers fs)"

text \<open>The branch \<^verbatim>\<open>SEARCH\<close>.\<close>

definition search_branch ::
  "(json \<Rightarrow> error + pyfloat) \<Rightarrow> turn \<Rightarrow> session \<Rightarrow> error + session" where
  "search_branch to_float t s =
     bind (extract_search_params (today t) (extract_reply t) (user_input t)) (\<lambda>params.
     if params = [] then Inr s
     else
       bind (search_flights (tool_server t) params) (\<lambda>response.
       let flights = (case response of JObj d \<Rightarrow> dict_get d ''data'' | _ \<Rightarrow> response) in
       if \<not> truthy flights then Inr s
       else
         bind (get_cheapest_flights to_float flights 7) (\<lambda>cheapest.
         let s' = s\<lparr>last_flights := cheapest, conversation_state := SEARCH_DONE\<rparr> in
         bind (print_offers cheapest) (\<lambda>_. Inr s'))))"

text \<open>The branch \<^verbatim>\<open>BOOK SELECT\<close>; \<open>text\<close> is the lowered input.\<close>

definition select_branch :: "string \<Rightarrow> session \<Rightarrow> error + session" where
  "select_branch text s =
     bind (case re_search False option_re text of
             Some idx_match \<Rightarrow> bind (py_int (group idx_match 1)) (\<lambda>n. Inr (n - 1))
           | None \<Rightarrow> Inr 0) (\<lambda>index.
     bind (list_item (last_flights s) index) (\<lambda>chosen.
     let s' = s\<lparr>selected_flight := Some chosen,
                conversation_state := AWAITING_PASSENGER_DETAILS\<rparr> in
     bind (dict_items chosen [''origin'', ''destination'', ''price'', ''currency''])
       (\<lambda>_. Inr s')))"

text \<open>The branch \<^verbatim>\<open>PASSENGER + BOOK\<close>.\<close>

definition booking_branch :: "turn \<Rightarrow> session \<Rightarrow> error + session" where
  "booking_branch t s =
     (case parse_passenger_details (user_input t) of
        None \<Rightarrow> Inr s
      | Some passenger \<Rightarrow>
          bind (case selected_flight s of None \<Rightarrow> Inl TypeError | Some f \<Rightarrow> Inr f) (\<lambda>f.
          bind (dict_item f ''offerId'') (\<lambda>offer_id.
          bind (dict_item f ''departDate'') (\<lambda>depart_date.
          let booking_payload =
                [(''userId'', JInt 1),
                 (''offerId'', offer_id),
                 (''tripType'', JStr ''ONEWAY''),
                 (''departDate'', depart_date),
                 (''paymentMethod'', JStr ''CARD''),
                 (''passengers'', JArr [JObj passenger])] in
          bind (create_oneway_booking (tool_server t) booking_payload) (\<lambda>result.
          case result of
            JObj d \<Rightarrow>
              Inr (s\<lparr>conversation_state := IDLE, selected_flight := None, last_flights := []\<rparr>)
          | _ \<Rightarrow> Inl AttributeError)))))"

text \<open>The body of \<^verbatim>\<open>while True\<close> after the test for \<^verbatim>\<open>exit\<close>: the chain of
  \<^verbatim>\<open>if\<close>/\<^verbatim>\<open>elif\<close> in the order of the source.  \<open>Inl\<close> is an exception that leaves
  the loop and ends the program.\<close>

definition loop_body ::
  "(json \<Rightarrow> error + pyfloat) \<Rightarrow> turn \<Rightarrow> session \<Rightarrow> error + session" where
  "loop_body to_float t s =
     bind (detect_intent (user_input t) (classify_reply t)) (\<lambda>intent.
     let text = lower (user_input t) in
     if intent = ''SEARCH_FLIGHTS'' \<and> conversation_state s = IDLE then
       search_branch to_float t s
     else if conversation_state s = SEARCH_DONE
             \<and> re_search False book_select_re text \<noteq> None then
       select_branch text s
     else if conversation_state s = SEARCH_DONE
             \<and> re_search False decline_re text \<noteq> None then
       Inr (s\<lparr>conversation_state := IDLE, last_flights := [], selected_flight := None\<rparr>)
     else if conversation_state s = AWAITING_PASSENGER_DETAILS then
       booking_branch t s
     else
       bind (chat_reply t) (\<lambda>_. Inr s))"

definition is_exit :: "string \<Rightarrow> bool" where
  "is_exit line = (lower line = ''exit'' \<or> lower line = ''quit'')"


text \<open>The sessions the loop can be in at the start of a turn.\<close>

inductive reachable :: "(json \<Rightarrow> error + pyfloat) \<Rightarrow> session \<Rightarrow> bool"
  for to_float :: "json \<Rightarrow> error + pyfloat" where
  start: "reachable to_float initial"
| turn: "reachable to_float s \<Longrightarrow> \<not> is_exit (user_input t) \<Longrightarrow> loop_body to_float t s = Inr s'
          \<Longrightarrow> reachable to_float s'"

text \<open>\<^verbatim>\<open>float\<close> on JSON integers, for running examples.\<close>

definition float_of_int :: "json \<Rightarrow> error + pyfloat" where
  "float_of_int v = (case v of JInt i \<Rightarrow> Inr (Finite (of_int i)) | _ \<Rightarrow> Inl TypeError)"


subsection \<open>Example data\<close>

definition offer_a :: dict where
  "offer_a = [(''offerId'', JStr ''OFF-A''), (''origin'', JStr ''BOM''),
     (''destination'', JStr ''DEL''), (''price'', JInt 5200), (''currency'', JStr ''INR''),
     (''departDate'', JStr ''2026-12-05'')]"

definition offer_b :: dict where
  "offer_b = [(''offerId'', JStr ''OFF-B''), (''origin'', JStr ''BOM''),
     (''destination'', JStr ''DEL''), (''price'', JInt 4100), (''currency'', JStr ''INR''),
     (''departDate'', JStr ''2026-12-05'')]"

definition search_turn :: turn where
  "search_turn = \<lparr>user_input = ''flights from Mumbai to Delhi on 5 Dec'',
     today = \<lparr>year = 2026, month = 11, day = 4\<rparr>,
     classify_reply = Inr ''SEARCH_FLIGHTS'', extract_reply = Inl OracleError,
     chat_reply = Inr ''Hello'',
     tool_server = (\<lambda>name args. HttpResponse 200 (Some (JArr [JObj offer_a, JObj offer_b])))\<rparr>"

definition select_turn :: turn where
  "select_turn = search_turn\<lparr>user_input := ''Book option 2'', classify_reply := Inl OracleError\<rparr>"

definition booking_turn :: turn where
  "booking_turn = search_turn\<lparr>user_input := ''John Doe 1990-01-01 economy'',
     classify_reply := Inr ''GENERAL_CHAT'',
     tool_server := (\<lambda>name args.
        HttpResponse 400 (Some (JObj [(''message'', JStr ''offer expired'')])))\<rparr>"







definition searched_session :: session where
  "searched_session = \<lparr>conversation_state = SEARCH_DONE, last_flights = [offer_b, offer_a],
     selected_flight = None\<rparr>"

definition awaiting_session :: session where
  "awaiting_session = \<lparr>conversation_state = AWAITING_PASSENGER_DETAILS,
     last_flights = [offer_b, offer_a], selected_flight = Some offer_a\<rparr>"

subsection \<open>The invariant of the session\<close>

text \<open>The cached offers are in the order of their prices.\<close>

definition price_sorted :: "(json \<Rightarrow> error + pyfloat) \<Rightarrow> dict list \<Rightarrow> bool" where
  "price_sorted to_float fs =
     (case price_keys to_float (map JObj fs) of
        Inl e \<Rightarrow> False
      | Inr kds \<Rightarrow> sorted_wrt float_le (map fst kds))"

text \<open>What holds of every session the loop can reach: a selection while the passenger is awaited,
  offers after a search, every cached offer printable, at most seven of them, and cheapest
  first when no price converts to NaN.\<close>

definition session_inv :: "(json \<Rightarrow> error + pyfloat) \<Rightarrow> session \<Rightarrow> bool" where
  "session_inv to_float s =
     ((conversation_state s = AWAITING_PASSENGER_DETAILS \<longrightarrow> selected_flight s \<noteq> None)
      \<and> (conversation_state s = SEARCH_DONE \<longrightarrow> last_flights s \<noteq> [])
      \<and> print_offers (last_flights s) = Inr ()
      \<and> ((\<forall>v. to_float v \<noteq> Inr NaN) \<longrightarrow> price_sorted to_float (last_flights s))
      \<and> length (last_flights s) \<le> 7)"

subsection \<open>The words of the specification\<close>

text \<open>
  A word occurs in a text as a whole word at a place where the text goes on with the word,
  the character before the place, if there is one, is not a character of a word, and neither
  is the character after the word.
\<close>

definition word_here :: "string \<Rightarrow> char option \<Rightarrow> string \<Rightarrow> bool" where
  "word_here w before rest =
     (starts_with rest w
      \<and> (case before of None \<Rightarrow> True | Some c \<Rightarrow> \<not> is_word c)
      \<and> (case drop (length w) rest of [] \<Rightarrow> True | c # _ \<Rightarrow> \<not> is_word c))"

fun whole_word_from :: "string \<Rightarrow> char option \<Rightarrow> string \<Rightarrow> bool" where
  "whole_word_from w before [] = word_here w before []"
| "whole_word_from w before (c # rest) =
     (word_here w before (c # rest) \<or> whole_word_from w (Some c) rest)"

definition contains_word :: "string \<Rightarrow> string \<Rightarrow> bool" where
  "contains_word w text = whole_word_from w None text"




section \<open>Exceptions and the branches of the loop\<close>

lemma bind_Inr [simp]: "bind (Inr x) f = f x"
  by (simp add: bind_def)

lemma bind_Inl [simp]: "bind (Inl e) f = Inl e"
  by (simp add: bind_def)

lemma bind_Inr_iff: "bind m f = Inr y \<longleftrightarrow> (\<exists>x. m = Inr x \<and> f x = Inr y)"
  by (cases m) simp_all

lemma list_item_in_set: "list_item xs i = Inr x \<Longrightarrow> x \<in> set xs"
  by (auto simp: list_item_def split: if_splits)

text \<open>A turn that returns to \<^verbatim>\<open>input\<close> went through one branch of the chain, or through
  the chat branch, which leaves the session as it is.\<close>

lemma loop_body_cases:
  assumes "loop_body to_float t s = Inr s'"
  shows "(conversation_state s = IDLE \<and> search_branch to_float t s = Inr s')
       \<or> (conversation_state s = SEARCH_DONE \<and> select_branch (lower (user_input t)) s = Inr s')
       \<or> (conversation_state s = SEARCH_DONE
            \<and> s' = s\<lparr>conversation_state := IDLE, last_flights := [], selected_flight := None\<rparr>)
       \<or> (conversation_state s = AWAITING_PASSENGER_DETAILS \<and> booking_branch t s = Inr s')
       \<or> s' = s"
  using assms unfolding loop_body_def
  by (auto simp: bind_Inr_iff Let_def split: if_splits)

lemma search_branch_cases:
  assumes "search_branch to_float t s = Inr s'"
  shows "s' = s \<or> (\<exists>flights cheapest. truthy flights
            \<and> get_cheapest_flights to_float flights 7 = Inr cheapest
            \<and> print_offers cheapest = Inr ()
            \<and> s' = s\<lparr>last_flights := cheapest, conversation_state := SEARCH_DONE\<rparr>)"
  using assms unfolding search_branch_def
  by (auto simp: bind_Inr_iff Let_def split: if_splits)

lemma select_branch_cases:
  assumes "select_branch text s = Inr s'"
  shows "\<exists>chosen. chosen \<in> set (last_flights s)
            \<and> s' = s\<lparr>selected_flight := Some chosen,
                      conversation_state := AWAITING_PASSENGER_DETAILS\<rparr>"
  using assms unfolding select_branch_def
  by (auto simp: bind_Inr_iff Let_def dest: list_item_in_set)

lemma booking_branch_cases:
  assumes "booking_branch t s = Inr s'"
  shows "s' = s
       \<or> s' = s\<lparr>conversation_state := IDLE, selected_flight := None, last_flights := []\<rparr>"
  using assms unfolding booking_branch_def
  apply (auto simp: bind_Inr_iff Let_def split: option.splits json.split_asm)
  by (metis json.exhaust)

section \<open>Parameter extraction: the regex fallback\<close>

lemma py_int_5: "py_int ''5'' = Inr 5"
  by code_simp

lemma py_int_31: "py_int ''31'' = Inr 31"
  by code_simp

lemma month_dec: "strptime_month (title ''dec'') = Inr 12"
  by code_simp

lemma month_feb: "strptime_month (title ''feb'') = Inr 2"
  by code_simp

lemma pad2_12: "pad2 12 = ''12''"
  by code_simp

lemma pad2_5: "pad2 5 = ''05''"
  by code_simp

lemma pad4_2026: "pad4 2026 = ''2026''"
  by code_simp

lemma pad4_2027: "pad4 2027 = ''2027''"
  by code_simp

lemma cities_dec:
  "scan_cities (lower ''flights from Mumbai to Delhi on 5 Dec'') city_map (None, None)
     = (Some ''BOM'', Some ''DEL'')"
  by code_simp

lemma date_dec:
  "map_option (\<lambda>g. (group g 1, group g 3))
     (re_search False date_re (lower ''flights from Mumbai to Delhi on 5 Dec''))
     = Some (''5'', ''dec'')"
  by code_simp

lemma cities_feb:
  "scan_cities (lower ''flights from Mumbai to Delhi on 31 Feb'') city_map (None, None)
     = (Some ''BOM'', Some ''DEL'')"
  by code_simp

lemma date_feb:
  "map_option (\<lambda>g. (group g 1, group g 3))
     (re_search False date_re (lower ''flights from Mumbai to Delhi on 31 Feb''))
     = Some (''31'', ''feb'')"
  by code_simp

lemma fallback_dec:
  assumes "1 \<le> year td" "year td < 9999"
  shows "regex_fallback td ''flights from Mumbai to Delhi on 5 Dec'' =
     Inr [(''origin'', JStr ''BOM''), (''destination'', JStr ''DEL''),
          (''departDate'',
             JStr (pad4 (if date_less \<lparr>year = year td, month = 12, day = 5\<rparr> td
                         then year td + 1 else year td) @ ''-12-05'')),
          (''tripType'', JStr ''ONEWAY''), (''adults'', JInt 1), (''cabin'', JStr ''ECONOMY'')]"
proof -
  obtain g where g:
      "re_search False date_re (lower ''flights from Mumbai to Delhi on 5 Dec'') = Some g"
      "group g (Suc 0) = ''5''" "group g 3 = ''dec''"
    using date_dec
    by (cases "re_search False date_re (lower ''flights from Mumbai to Delhi on 5 Dec'')") auto
  show ?thesis
    unfolding regex_fallback_def
    using assms
    by (simp add: g cities_dec py_int_5 month_dec bind_def datetime_def valid_date_def
        days_in_month_def strftime_def pad2_12 pad2_5 Let_def)
qed

text \<open>
  C7.  When the attempt through the language model is discarded, the input
  \<^verbatim>\<open>flights from Mumbai to Delhi on 5 Dec\<close> yields origin \<^verbatim>\<open>BOM\<close>, destination
  \<^verbatim>\<open>DEL\<close> and the departure date \<^verbatim>\<open>Y-12-05\<close>, where \<open>Y\<close> is this year unless
  5 December of this year lies before today, and then the next year.  (Today is a day of the
  years 1 to 9998, so that the next year is still a year of the calendar.)
\<close>

theorem extract_mumbai_delhi_5_dec:
  assumes "llm_attempt oracle = None" and "1 \<le> year td" and "year td < 9999"
  shows "extract_search_params td oracle ''flights from Mumbai to Delhi on 5 Dec'' =
     Inr [(''origin'', JStr ''BOM''), (''destination'', JStr ''DEL''),
          (''departDate'',
             JStr (pad4 (if date_less \<lparr>year = year td, month = 12, day = 5\<rparr> td
                         then year td + 1 else year td) @ ''-12-05'')),
          (''tripType'', JStr ''ONEWAY''), (''adults'', JInt 1), (''cabin'', JStr ''ECONOMY'')]"
  using assms by (simp add: extract_search_params_def fallback_dec)

theorem extract_mumbai_delhi_5_dec_witness:
  "llm_attempt (Inl OracleError) = None
   \<and> extract_search_params \<lparr>year = 2026, month = 11, day = 4\<rparr> (Inl OracleError)
        ''flights from Mumbai to Delhi on 5 Dec'' =
      Inr [(''origin'', JStr ''BOM''), (''destination'', JStr ''DEL''),
           (''departDate'', JStr ''2026-12-05''),
           (''tripType'', JStr ''ONEWAY''), (''adults'', JInt 1), (''cabin'', JStr ''ECONOMY'')]
   \<and> extract_search_params \<lparr>year = 2026, month = 12, day = 20\<rparr> (Inr (JArr []))
        ''flights from Mumbai to Delhi on 5 Dec'' =
      Inr [(''origin'', JStr ''BOM''), (''destination'', JStr ''DEL''),
           (''departDate'', JStr ''2027-12-05''),
           (''tripType'', JStr ''ONEWAY''), (''adults'', JInt 1), (''cabin'', JStr ''ECONOMY'')]"
  using extract_mumbai_delhi_5_dec [of "Inl OracleError" "\<lparr>year = 2026, month = 11, day = 4\<rparr>"]
        extract_mumbai_delhi_5_dec [of "Inr (JArr [])" "\<lparr>year = 2026, month = 12, day = 20\<rparr>"]
  by (simp add: llm_attempt_def date_less_def pad4_2026 pad4_2027)

lemma fallback_feb:
  "regex_fallback \<lparr>year = 2026, month = 11, day = 4\<rparr>
     ''flights from Mumbai to Delhi on 31 Feb'' = Inl ValueError"
proof -
  obtain g where g:
      "re_search False date_re (lower ''flights from Mumbai to Delhi on 31 Feb'') = Some g"
      "group g (Suc 0) = ''31''" "group g 3 = ''feb''"
    using date_feb
    by (cases "re_search False date_re (lower ''flights from Mumbai to Delhi on 31 Feb'')") auto
  show ?thesis
    unfolding regex_fallback_def
    by (simp add: g cities_feb py_int_31 month_feb bind_def datetime_def valid_date_def
        days_in_month_def leap_year_def Let_def)
qed

text \<open>
  C5.  The claim is that \<open>extract_search_params\<close> never raises.  The attempt through the
  language model is guarded, the fallback is not: with the model's answer discarded, the
  input \<^verbatim>\<open>flights from Mumbai to Delhi on 31 Feb\<close> resolves both cities and the
  day-month phrase, and \<^verbatim>\<open>datetime(2026, 2, 31)\<close> raises \<^verbatim>\<open>ValueError\<close>, which leaves
  the function.
\<close>

theorem extract_31_feb_raises:
  "extract_search_params \<lparr>year = 2026, month = 11, day = 4\<rparr> (Inl OracleError)
     ''flights from Mumbai to Delhi on 31 Feb'' = Inl ValueError"
  by (simp add: extract_search_params_def llm_attempt_def fallback_feb)

section \<open>A run of the loop\<close>

lemma extract_search_turn:
  "extract_search_params \<lparr>year = 2026, month = 11, day = 4\<rparr> (Inl OracleError)
     ''flights from Mumbai to Delhi on 5 Dec'' =
   Inr [(''origin'', JStr ''BOM''), (''destination'', JStr ''DEL''),
        (''departDate'', JStr ''2026-12-05''),
        (''tripType'', JStr ''ONEWAY''), (''adults'', JInt 1), (''cabin'', JStr ''ECONOMY'')]"
  by (simp add: extract_search_params_def llm_attempt_def fallback_dec date_less_def pad4_2026)

lemma intent_search:
  "detect_intent ''flights from Mumbai to Delhi on 5 Dec'' (Inr ''SEARCH_FLIGHTS'')
     = Inr ''SEARCH_FLIGHTS''"
  by code_simp

lemma intent_select: "detect_intent ''Book option 2'' (Inl OracleError) = Inr ''BOOK_FLIGHT''"
  by code_simp

lemma intent_passenger:
  "detect_intent ''John Doe 1990-01-01 economy'' (Inr ''GENERAL_CHAT'') = Inr ''GENERAL_CHAT''"
  by code_simp

lemma passenger_john:
  "parse_passenger_details ''John Doe 1990-01-01 economy'' =
     Some [(''firstName'', JStr ''John''), (''lastName'', JStr ''Doe''),
           (''dob'', JStr ''1990-01-01''), (''travellerClass'', JStr ''ECONOMY'')]"
  by code_simp

lemma select_match: "re_search False book_select_re (lower ''Book option 2'') \<noteq> None"
  by code_simp

lemma option_match:
  "map_option (\<lambda>g. group g 1) (re_search False option_re (lower ''Book option 2'')) = Some ''2''"
  by code_simp

lemma py_int_2: "py_int ''2'' = Inr 2"
  by code_simp

lemma not_exit:
  "\<not> is_exit ''flights from Mumbai to Delhi on 5 Dec'' \<and> \<not> is_exit ''Book option 2''
   \<and> \<not> is_exit ''John Doe 1990-01-01 economy''"
  by code_simp

lemma sorted_offers:
  "py_sorted [(Finite 5200, offer_a), (Finite 4100, offer_b)]
     = [(Finite 4100, offer_b), (Finite 5200, offer_a)]"
  by (simp add: py_sorted_def binarysort_def)

lemma cheapest_offers:
  "get_cheapest_flights float_of_int (JArr [JObj offer_a, JObj offer_b]) 7
     = Inr [offer_b, offer_a]"
proof -
  have "price_keys float_of_int [JObj offer_a, JObj offer_b]
          = Inr [(Finite 5200, offer_a), (Finite 4100, offer_b)]"
    by (simp add: price_key_def dict_item_def float_of_int_def offer_a_def offer_b_def)
  then show ?thesis
    by (simp add: get_cheapest_flights_def sorted_offers)
qed

lemma offers_printed: "print_offers [offer_b, offer_a] = Inr ()"
  by (simp add: dict_item_def offer_a_def offer_b_def)

lemma run_search: "loop_body float_of_int search_turn initial = Inr searched_session"
  by (simp add: loop_body_def search_turn_def initial_def searched_session_def intent_search
      extract_search_turn search_branch_def search_flights_def post_json_def
      cheapest_offers offers_printed Let_def del: print_offers.simps)

lemma run_select: "loop_body float_of_int select_turn searched_session = Inr awaiting_session"
proof -
  obtain g where g: "re_search False option_re (lower ''Book option 2'') = Some g"
      "group g (Suc 0) = ''2''"
    using option_match by (cases "re_search False option_re (lower ''Book option 2'')") auto
  show ?thesis
    using select_match
    by (simp add: loop_body_def select_turn_def search_turn_def searched_session_def
        awaiting_session_def intent_select select_branch_def g py_int_2 list_item_def
        dict_item_def offer_a_def offer_b_def Let_def)
qed

lemma run_booking: "loop_body float_of_int booking_turn awaiting_session = Inr initial"
  by (simp add: loop_body_def booking_turn_def search_turn_def awaiting_session_def initial_def
      intent_passenger booking_branch_def passenger_john dict_item_def offer_a_def
      create_oneway_booking_def post_json_def Let_def)

lemma reachable_searched: "reachable float_of_int searched_session"
proof (rule reachable.turn [OF reachable.start _ run_search])
  show "\<not> is_exit (user_input search_turn)"
    by (simp add: search_turn_def not_exit)
qed

lemma reachable_awaiting: "reachable float_of_int awaiting_session"
proof (rule reachable.turn [OF reachable_searched _ run_select])
  show "\<not> is_exit (user_input select_turn)"
    by (simp add: select_turn_def not_exit)
qed

section \<open>The sort of the offers\<close>

text \<open>The sorted list has the elements of the list it was made from, and when no key is NaN
  it is in the order of the keys.\<close>

lemma float_lt_irrefl [simp]: "\<not> float_lt a a"
  by (cases a) auto

lemma float_lt_trans: "float_lt a b \<Longrightarrow> float_lt b c \<Longrightarrow> float_lt a c"
  by (cases a; cases b; cases c) auto

lemma float_le_refl: "a \<noteq> NaN \<Longrightarrow> float_le a a"
  by (simp add: float_le_def)

lemma float_le_trans: "float_le a b \<Longrightarrow> float_le b c \<Longrightarrow> float_le a c"
  unfolding float_le_def by (cases a; cases b; cases c) auto

lemma not_lt_float_le: "a \<noteq> NaN \<Longrightarrow> b \<noteq> NaN \<Longrightarrow> \<not> float_lt a b \<Longrightarrow> float_le b a"
  unfolding float_le_def by (cases a; cases b) auto

lemma float_lt_le: "float_lt a b \<Longrightarrow> float_le a b"
  by (simp add: float_le_def)

lemma float_le_lt_trans: "float_le a b \<Longrightarrow> float_lt b c \<Longrightarrow> float_lt a c"
  unfolding float_le_def by (cases a; cases b; cases c) auto

lemma float_lt_le_trans: "float_lt a b \<Longrightarrow> float_le b c \<Longrightarrow> float_lt a c"
  unfolding float_le_def by (cases a; cases b; cases c) auto

lemma insert_pivot_set: "set (insert_pivot run x) = insert x (set run)"
proof -
  have "set (take l run) \<union> set (drop l run) = set run" for l
    by (metis append_take_drop_id set_append)
  then show ?thesis by (auto simp: insert_pivot_def Let_def)
qed

lemma insert_pivot_length: "length (insert_pivot run x) = Suc (length run)"
  by (simp add: insert_pivot_def Let_def)

lemma binarysort_set: "set (binarysort run rest) = set run \<union> set rest"
  unfolding binarysort_def
  by (induction rest arbitrary: run) (auto simp: insert_pivot_set)

lemma binarysort_length: "length (binarysort run rest) = length run + length rest"
  unfolding binarysort_def
  by (induction rest arbitrary: run) (auto simp: insert_pivot_length)

lemma py_sorted_set: "set (py_sorted kds) = set kds"
proof -
  have "set (take n kds) \<union> set (drop n kds) = set kds" for n
    by (metis append_take_drop_id set_append)
  from this [of "fst (count_run (map fst kds))"] show ?thesis
    by (cases "count_run (map fst kds)") (auto simp: py_sorted_def binarysort_set)
qed

lemma py_sorted_length: "length (py_sorted kds) = length kds"
  by (cases "count_run (map fst kds)") (auto simp: py_sorted_def binarysort_length)

lemma bisect_stop: "\<not> l < r \<Longrightarrow> bisect pivot a l r = l"
  by (subst bisect.simps) simp

lemma bisect_left:
  "l < r \<Longrightarrow> float_lt pivot (a ! (l + (r - l) div 2)) \<Longrightarrow>
     bisect pivot a l r = bisect pivot a l (l + (r - l) div 2)"
  by (subst bisect.simps) simp

lemma bisect_right:
  "l < r \<Longrightarrow> \<not> float_lt pivot (a ! (l + (r - l) div 2)) \<Longrightarrow>
     bisect pivot a l r = bisect pivot a (l + (r - l) div 2 + 1) r"
  by (subst bisect.simps) simp

lemma bisect_place:
  assumes "sorted_wrt float_le a" and "NaN \<notin> set a" and "pivot \<noteq> NaN"
    and "l \<le> r" and "r \<le> length a"
    and "\<forall>i<l. float_le (a ! i) pivot"
    and "\<forall>i. r \<le> i \<and> i < length a \<longrightarrow> float_lt pivot (a ! i)"
  shows "bisect pivot a l r \<le> length a
       \<and> (\<forall>i < bisect pivot a l r. float_le (a ! i) pivot)
       \<and> (\<forall>i. bisect pivot a l r \<le> i \<and> i < length a \<longrightarrow> float_lt pivot (a ! i))"
  using assms
proof (induction pivot a l r rule: bisect.induct)
  case (1 pivot a l r)
  let ?p = "l + (r - l) div 2"
  show ?case
  proof (cases "l < r")
    case False
    then have "bisect pivot a l r = l" and "l = r"
      using 1(6) by (simp_all add: bisect_stop)
    then show ?thesis using 1(7,8,9) by simp
  next
    case True
    then have p: "l \<le> ?p" "?p < r" by auto
    then have plen: "?p < length a" using 1(7) by simp
    have nn: "a ! ?p \<noteq> NaN" using plen 1(4) by (metis nth_mem)
    show ?thesis
    proof (cases "float_lt pivot (a ! ?p)")
      case lt: True
      have hi: "\<forall>i. ?p \<le> i \<and> i < length a \<longrightarrow> float_lt pivot (a ! i)"
      proof (intro allI impI)
        fix i assume i: "?p \<le> i \<and> i < length a"
        show "float_lt pivot (a ! i)"
        proof (cases "i = ?p")
          case True then show ?thesis using lt by simp
        next
          case False
          then have "?p < i" using i by simp
          then have "float_le (a ! ?p) (a ! i)"
            using 1(3) i by (simp add: sorted_wrt_iff_nth_less)
          then show ?thesis using lt float_lt_le_trans by blast
        qed
      qed
      have "bisect pivot a l r = bisect pivot a l ?p"
        using True lt by (simp add: bisect_left)
      moreover have "bisect pivot a l ?p \<le> length a
       \<and> (\<forall>i < bisect pivot a l ?p. float_le (a ! i) pivot)
       \<and> (\<forall>i. bisect pivot a l ?p \<le> i \<and> i < length a \<longrightarrow> float_lt pivot (a ! i))"
        using 1(1) [OF True lt 1(3) 1(4) 1(5) p(1) _ 1(8) hi] plen by simp
      ultimately show ?thesis by simp
    next
      case ge: False
      have le: "float_le (a ! ?p) pivot"
        using not_lt_float_le [OF 1(5) nn ge] .
      have lo: "\<forall>i < ?p + 1. float_le (a ! i) pivot"
      proof (intro allI impI)
        fix i assume i: "i < ?p + 1"
        show "float_le (a ! i) pivot"
        proof (cases "i = ?p")
          case True then show ?thesis using le by simp
        next
          case False
          then have "i < ?p" using i by simp
          then have "float_le (a ! i) (a ! ?p)"
            using 1(3) plen by (simp add: sorted_wrt_iff_nth_less)
          then show ?thesis using le float_le_trans by blast
        qed
      qed
      have "bisect pivot a l r = bisect pivot a (?p + 1) r"
        using True ge by (simp add: bisect_right)
      moreover have "bisect pivot a (?p + 1) r \<le> length a
       \<and> (\<forall>i < bisect pivot a (?p + 1) r. float_le (a ! i) pivot)
       \<and> (\<forall>i. bisect pivot a (?p + 1) r \<le> i \<and> i < length a \<longrightarrow> float_lt pivot (a ! i))"
        using 1(2) [OF True ge 1(3) 1(4) 1(5) _ 1(7) lo 1(9)] p by simp
      ultimately show ?thesis by simp
    qed
  qed
qed
lemma insert_pivot_sorted:
  assumes "sorted_wrt float_le (map fst run)" and "NaN \<notin> fst ` set run" and "fst x \<noteq> NaN"
  shows "sorted_wrt float_le (map fst (insert_pivot run x))"
proof -
  let ?a = "map fst run"
  let ?l = "bisect (fst x) ?a 0 (length run)"
  have nan: "NaN \<notin> set ?a" using assms(2) by simp
  have pl: "?l \<le> length ?a
       \<and> (\<forall>i < ?l. float_le (?a ! i) (fst x))
       \<and> (\<forall>i. ?l \<le> i \<and> i < length ?a \<longrightarrow> float_lt (fst x) (?a ! i))"
  proof (rule bisect_place [OF assms(1) nan assms(3)])
    show "\<forall>i. length run \<le> i \<and> i < length ?a \<longrightarrow> float_lt (fst x) (?a ! i)"
      by auto
  qed simp_all
  have before: "\<forall>k \<in> set (take ?l ?a). float_le k (fst x)"
  proof
    fix k assume "k \<in> set (take ?l ?a)"
    then obtain i where "i < length (take ?l ?a)" "take ?l ?a ! i = k"
      by (metis in_set_conv_nth)
    then show "float_le k (fst x)" using pl by auto
  qed
  have after: "\<forall>k \<in> set (drop ?l ?a). float_le (fst x) k"
  proof
    fix k assume "k \<in> set (drop ?l ?a)"
    then obtain i where i: "i < length (drop ?l ?a)" "drop ?l ?a ! i = k"
      by (metis in_set_conv_nth)
    then have "float_lt (fst x) (?a ! (?l + i))" using pl by auto
    then show "float_le (fst x) k" using i pl by (simp add: float_lt_le)
  qed
  have split: "sorted_wrt float_le (take ?l ?a @ drop ?l ?a)"
    using assms(1) by simp
  have "sorted_wrt float_le (take ?l ?a @ fst x # drop ?l ?a)"
    using split before after unfolding sorted_wrt_append by auto
  then show ?thesis
    by (simp add: insert_pivot_def Let_def take_map drop_map)
qed

lemma binarysort_sorted:
  assumes "sorted_wrt float_le (map fst run)" and "NaN \<notin> fst ` set run"
    and "NaN \<notin> fst ` set rest"
  shows "sorted_wrt float_le (map fst (binarysort run rest))"
  using assms unfolding binarysort_def
proof (induction rest arbitrary: run)
  case Nil
  then show ?case by simp
next
  case (Cons x rest)
  have "sorted_wrt float_le (map fst (insert_pivot run x))"
    using insert_pivot_sorted [of run x] Cons.prems by auto
  moreover have "NaN \<notin> fst ` set (insert_pivot run x)"
    using Cons.prems by (auto simp: insert_pivot_set)
  ultimately show ?case
    using Cons.IH [of "insert_pivot run x"] Cons.prems by simp
qed

lemma count_asc_run:
  "NaN \<notin> set (prev # ks) \<Longrightarrow> sorted_wrt float_le (prev # take (count_asc prev ks) ks)"
proof (induction ks arbitrary: prev)
  case Nil
  then show ?case by simp
next
  case (Cons k ks)
  show ?case
  proof (cases "float_lt k prev")
    case True
    then show ?thesis by simp
  next
    case False
    then have le: "float_le prev k"
      using Cons.prems not_lt_float_le [of k prev] by auto
    have "sorted_wrt float_le (k # take (count_asc k ks) ks)"
      using Cons.IH [of k] Cons.prems by auto
    then show ?thesis
      using False le float_le_trans by auto
  qed
qed

lemma count_desc_run:
  "sorted_wrt (\<lambda>a b. float_lt b a) (prev # take (count_desc prev ks) ks)"
proof (induction ks arbitrary: prev)
  case Nil
  then show ?case by simp
next
  case (Cons k ks)
  show ?case
  proof (cases "float_lt k prev")
    case False
    then show ?thesis by simp
  next
    case True
    have "sorted_wrt (\<lambda>a b. float_lt b a) (k # take (count_desc k ks) ks)"
      using Cons.IH [of k] .
    then show ?thesis
      using True float_lt_trans by auto
  qed
qed

lemma first_run_sorted:
  assumes "NaN \<notin> set ks" and "count_run ks = (n, descending)"
  shows "sorted_wrt float_le (if descending then rev (take n ks) else take n ks)"
proof (cases ks)
  case Nil
  then show ?thesis by simp
next
  case (Cons k ks')
  note ks = this
  show ?thesis
  proof (cases ks')
    case Nil
    then show ?thesis using assms ks by (auto simp: float_le_refl)
  next
    case (Cons k' ks'')
    show ?thesis
    proof (cases "float_lt k' k")
      case True
      then have n: "n = 2 + count_desc k' ks''" "descending"
        using assms(2) ks Cons by auto
      have "sorted_wrt (\<lambda>a b. float_lt b a) (k' # take (count_desc k' ks'') ks'')"
        by (rule count_desc_run)
      then have "sorted_wrt (\<lambda>a b. float_lt b a) (take n ks)"
        using True n ks Cons float_lt_trans by auto
      then have "sorted_wrt float_lt (rev (take n ks))"
        by (simp add: sorted_wrt_rev)
      then have "sorted_wrt float_le (rev (take n ks))"
        by (rule sorted_wrt_mono_rel [rotated]) (simp add: float_lt_le)
      then show ?thesis using n by simp
    next
      case False
      then have n: "n = 2 + count_asc k' ks''" "\<not> descending"
        using assms(2) ks Cons by auto
      have nn: "k \<noteq> NaN" "k' \<noteq> NaN" "NaN \<notin> set ks''"
        using assms(1) ks Cons by auto
      have le: "float_le k k'"
        using not_lt_float_le [OF nn(2) nn(1) False] .
      have "sorted_wrt float_le (k' # take (count_asc k' ks'') ks'')"
        using count_asc_run [of k' ks''] nn by simp
      then have "sorted_wrt float_le (take n ks)"
        using n ks Cons le float_le_trans by auto
      then show ?thesis using n by simp
    qed
  qed
qed

lemma py_sorted_sorted:
  assumes "NaN \<notin> fst ` set kds"
  shows "sorted_wrt float_le (map fst (py_sorted kds))"
proof -
  obtain n descending where cr: "count_run (map fst kds) = (n, descending)"
    by (cases "count_run (map fst kds)") auto
  let ?run = "if descending then rev (take n kds) else take n kds"
  have "sorted_wrt float_le (if descending then rev (take n (map fst kds)) else take n (map fst kds))"
    using first_run_sorted [OF _ cr] assms by simp
  then have run: "sorted_wrt float_le (map fst ?run)"
    by (simp add: take_map rev_map split: if_splits)
  have "NaN \<notin> fst ` set ?run"
    using assms by (auto dest: in_set_takeD)
  moreover have "NaN \<notin> fst ` set (drop n kds)"
    using assms by (auto dest: in_set_dropD)
  ultimately have "sorted_wrt float_le (map fst (binarysort ?run (drop n kds)))"
    using binarysort_sorted [OF run] by blast
  then show ?thesis by (simp add: py_sorted_def cr)
qed

section \<open>The invariant holds\<close>

lemma price_keys_pairs:
  "price_keys to_float fs = Inr kds \<Longrightarrow>
     length kds = length fs \<and> (\<forall>(k, d) \<in> set kds. price_key to_float (JObj d) = Inr (k, d))"
proof (induction fs arbitrary: kds)
  case Nil
  then show ?case by simp
next
  case (Cons f fs)
  then show ?case
    by (auto simp: bind_Inr_iff price_key_def split: json.splits)
qed

lemma price_keys_of_pairs:
  "(\<forall>(k, d) \<in> set kds. price_key to_float (JObj d) = Inr (k, d)) \<Longrightarrow>
     price_keys to_float (map (JObj \<circ> snd) kds) = Inr kds"
  by (induction kds) auto

lemma price_key_value:
  "price_key to_float f = Inr (k, d) \<Longrightarrow> \<exists>v. to_float v = Inr k"
  by (auto simp: price_key_def bind_Inr_iff split: json.splits)

lemma cheapest_sorted:
  assumes "get_cheapest_flights to_float flights limit = Inr cheapest" and "truthy flights"
  shows "((\<forall>v. to_float v \<noteq> Inr NaN) \<longrightarrow> price_sorted to_float cheapest)
         \<and> length cheapest \<le> limit
         \<and> (0 < limit \<longrightarrow> cheapest \<noteq> [])"
proof -
  from assms obtain fs kds where fs: "flights = JArr fs" "fs \<noteq> []"
      and kds: "price_keys to_float fs = Inr kds"
      and ch: "cheapest = take limit (map snd (py_sorted kds))"
    by (auto simp: get_cheapest_flights_def bind_Inr_iff split: json.splits if_splits)
  let ?sorted = "take limit (py_sorted kds)"
  have sub: "set ?sorted \<subseteq> set kds"
    using set_take_subset [of limit "py_sorted kds"] by (simp add: py_sorted_set)
  have pairs: "\<forall>(k, d) \<in> set ?sorted. price_key to_float (JObj d) = Inr (k, d)"
    using sub price_keys_pairs [OF kds] by blast
  have "map JObj cheapest = map (JObj \<circ> snd) ?sorted"
    by (simp add: ch take_map)
  then have keys: "price_keys to_float (map JObj cheapest) = Inr ?sorted"
    using price_keys_of_pairs [OF pairs] by simp
  have srt: "sorted_wrt float_le (map fst ?sorted)" if "\<forall>v. to_float v \<noteq> Inr NaN"
  proof -
    have "NaN \<notin> fst ` set kds"
    proof
      assume "NaN \<in> fst ` set kds"
      then obtain d where "(NaN, d) \<in> set kds" by force
      then have "price_key to_float (JObj d) = Inr (NaN, d)"
        using price_keys_pairs [OF kds] by blast
      then show False using price_key_value that by blast
    qed
    then have "sorted_wrt float_le (map fst (py_sorted kds))"
      by (rule py_sorted_sorted)
    then show ?thesis
      by (simp add: take_map [symmetric] sorted_wrt_take)
  qed
  have "py_sorted kds \<noteq> []"
    using price_keys_pairs [OF kds] fs(2) by (metis length_0_conv py_sorted_length)
  moreover have "price_sorted to_float cheapest" if "\<forall>v. to_float v \<noteq> Inr NaN"
    using srt [OF that] by (simp add: price_sorted_def keys)
  ultimately show ?thesis
    by (auto simp: ch)
qed

lemma session_inv_initial: "session_inv to_float initial"
  by (simp add: session_inv_def initial_def price_sorted_def)

lemma session_inv_step:
  assumes "session_inv to_float s" and "loop_body to_float t s = Inr s'"
  shows "session_inv to_float s'"
  using loop_body_cases [OF assms(2)]
proof (elim disjE conjE)
  assume "search_branch to_float t s = Inr s'"
  from search_branch_cases [OF this] assms(1) show ?thesis
    by (auto simp: session_inv_def dest: cheapest_sorted)
next
  assume "select_branch (lower (user_input t)) s = Inr s'"
  from select_branch_cases [OF this] assms(1) show ?thesis
    by (auto simp: session_inv_def)
next
  assume "s' = s\<lparr>conversation_state := IDLE, last_flights := [], selected_flight := None\<rparr>"
  then show ?thesis by (simp add: session_inv_def price_sorted_def)
next
  assume "booking_branch t s = Inr s'"
  from booking_branch_cases [OF this] assms(1) show ?thesis
    by (auto simp: session_inv_def price_sorted_def)
next
  assume "s' = s"
  with assms(1) show ?thesis by simp
qed

lemma reachable_inv: "reachable to_float s \<Longrightarrow> session_inv to_float s"
  by (induction rule: reachable.induct) (auto intro: session_inv_initial session_inv_step)

section \<open>Selecting an offer by its number\<close>

lemma takeWhile_all: "list_all P xs \<Longrightarrow> takeWhile P xs = xs"
  by (induction xs) auto

lemma rmatch_Rep_all:
  assumes "list_all (in_cls c) s" and "lo \<le> length s"
  shows "rmatch ic (Rep c lo None) (p, s, g) =
           consume (length s) (p, s, g) # map (\<lambda>k. consume k (p, s, g)) (rev [lo..<length s])"
  using assms by (simp add: takeWhile_all Let_def)

lemma digit_not_space: "is_digit c \<Longrightarrow> \<not> is_space c"
  by (auto simp: is_digit_def is_space_def)

lemma verb_book_option:
  "re_search False book_verb_re (''book option '' @ ds) \<noteq> None"
  by (simp add: re_search_def book_verb_re_def first_groups_def consume_def same_text_def
      word_before_def word_after_def is_word_def is_digit_def ord_def)

lemma select_book_option:
  "re_search False book_select_re (''book option '' @ ds) \<noteq> None"
  by (simp add: re_search_def book_select_re_def first_groups_def consume_def same_text_def
      word_before_def word_after_def is_word_def is_digit_def ord_def)

lemma option_digits:
  assumes "ds \<noteq> []" and "list_all is_digit ds"
  shows "\<exists>g. re_search False option_re (''book option '' @ ds) = Some g \<and> group g 1 = ds"
proof -
  obtain d ds' where ds: "ds = d # ds'" using assms(1) by (cases ds) auto
  have "\<not> is_space d" using assms(2) ds by (simp add: digit_not_space)
  moreover have "is_space CHR '' ''" by (simp add: is_space_def ord_def)
  ultimately have sp: "takeWhile (in_cls Space) (CHR '' '' # ds) = '' ''"
    using ds by simp
  have r1: "rmatch False (Rep Space (Suc 0) None) (p, CHR '' '' # ds, g)
              = [(Some CHR '' '', ds, g)]" for p g
    by (simp add: sp consume_def Let_def del: takeWhile.simps)
  have dg: "list_all (in_cls Digit) ds" using assms(2) by (simp add: list_all_iff)
  have r2: "rmatch False (Rep Digit (Suc 0) None) (p, ds, g)
              = consume (length ds) (p, ds, g)
                # map (\<lambda>k. consume k (p, ds, g)) (rev [Suc 0..<length ds])" for p g
    using rmatch_Rep_all [OF dg, of "Suc 0"] ds by simp
  show ?thesis
    using assms(1)
    by (simp add: re_search_def option_re_def first_groups_def same_text_def
        r1 r2 consume_def group_def del: rmatch.simps(2))
qed
lemma printed_keys:
  "print_offers fs = Inr () \<Longrightarrow> f \<in> set fs \<Longrightarrow>
     \<exists>vs. dict_items f [''origin'', ''destination'', ''price'', ''currency''] = Inr vs"
  by (induction fs) (auto simp: bind_Inr_iff)

lemma intent_book_option:
  assumes "lower (user_input t) = ''book option '' @ ds"
  shows "detect_intent (user_input t) (classify_reply t) = Inr ''BOOK_FLIGHT''"
  using verb_book_option [of ds] by (simp add: detect_intent_def assms Let_def)

lemma select_book_option_n:
  assumes inv: "session_inv to_float s"
    and st: "conversation_state s = SEARCH_DONE"
    and inp: "lower (user_input t) = ''book option '' @ ds"
    and ds: "ds \<noteq> []" "list_all is_digit ds" "length ds \<le> 4300"
  shows "loop_body to_float t s =
     (case list_item (last_flights s) (int (digits_val ds) - 1) of
        Inl e \<Rightarrow> Inl e
      | Inr chosen \<Rightarrow> Inr (s\<lparr>selected_flight := Some chosen,
                              conversation_state := AWAITING_PASSENGER_DETAILS\<rparr>))"
proof -
  obtain g where g: "re_search False option_re (''book option '' @ ds) = Some g" "group g 1 = ds"
    using option_digits [OF ds(1,2)] by blast
  note g1 = g(1) [simplified]
  have int: "py_int ds = Inr (int (digits_val ds))"
    using ds by (simp add: py_int_def)
  have body: "loop_body to_float t s = select_branch (''book option '' @ ds) s"
    using select_book_option [of ds]
    by (simp add: loop_body_def intent_book_option [OF inp] st inp Let_def)
  show ?thesis
  proof (cases "list_item (last_flights s) (int (digits_val ds) - 1)")
    case (Inl e)
    then show ?thesis
      using g(2) by (simp add: body select_branch_def g1 int del: dict_items.simps)
  next
    case (Inr chosen)
    then have "chosen \<in> set (last_flights s)" by (rule list_item_in_set)
    then obtain vs where
      "dict_items chosen [''origin'', ''destination'', ''price'', ''currency''] = Inr vs"
      using inv printed_keys unfolding session_inv_def by blast
    then show ?thesis
      using g(2) Inr by (simp add: body select_branch_def g1 int Let_def del: dict_items.simps)
  qed
qed

lemma digits_val_2: "digits_val ''2'' = 2" by code_simp
lemma is_digit_2: "list_all is_digit ''2'' \<and> list_all is_digit ''0'' \<and> list_all is_digit ''3''" by code_simp
lemma lower_select: "lower ''Book option 2'' = ''book option 2''" by code_simp

text \<open>
  C8.  In a session the loop can reach, in state \<^verbatim>\<open>SEARCH_DONE\<close> with two cached offers or more,
  the input \<^verbatim>\<open>book option 2\<close> (in any case of letters) selects the entry of index 1 of the
  cached list, whatever the offers and their prices are, and the turn ends in state
  \<^verbatim>\<open>AWAITING_PASSENGER_DETAILS\<close>; the reply of the language model plays no part.
\<close>

theorem book_option_2_selects_second:
  assumes "reachable to_float s"
    and "conversation_state s = SEARCH_DONE"
    and "2 \<le> length (last_flights s)"
    and "lower (user_input t) = ''book option 2''"
  shows "loop_body to_float t s =
     Inr (s\<lparr>selected_flight := Some (last_flights s ! 1),
            conversation_state := AWAITING_PASSENGER_DETAILS\<rparr>)"
proof -
  have "lower (user_input t) = ''book option '' @ ''2''"
    using assms(4) by simp
  from select_book_option_n [OF reachable_inv [OF assms(1)] assms(2) this]
  show ?thesis
    using assms(3) is_digit_2 by (simp add: digits_val_2 list_item_def)
qed

theorem book_option_2_selects_second_witness:
  "reachable float_of_int searched_session
   \<and> conversation_state searched_session = SEARCH_DONE
   \<and> 2 \<le> length (last_flights searched_session)
   \<and> lower (user_input select_turn) = ''book option 2''
   \<and> last_flights searched_session = [offer_b, offer_a]
   \<and> loop_body float_of_int select_turn searched_session =
       Inr \<lparr>conversation_state = AWAITING_PASSENGER_DETAILS, last_flights = [offer_b, offer_a],
            selected_flight = Some offer_a\<rparr>"
  using book_option_2_selects_second [of float_of_int searched_session select_turn]
    reachable_searched
  by (simp add: searched_session_def select_turn_def lower_select)
section \<open>The invariant of the state machine\<close>

text \<open>
  C1.  In every session the loop can reach from the initial one, a session in state
  \<^verbatim>\<open>AWAITING_PASSENGER_DETAILS\<close> has a selected flight.  A turn that enters this state starts in
  \<^verbatim>\<open>SEARCH_DONE\<close> and leaves one of the cached offers selected; a turn that leaves it ends in
  \<^verbatim>\<open>IDLE\<close> with no selection, whether the booking succeeded or not.
\<close>

theorem awaiting_has_selection:
  assumes "reachable to_float s"
  shows "(conversation_state s = AWAITING_PASSENGER_DETAILS \<longrightarrow> selected_flight s \<noteq> None)
    \<and> (\<forall>t s'. loop_body to_float t s = Inr s'
            \<and> conversation_state s \<noteq> AWAITING_PASSENGER_DETAILS
            \<and> conversation_state s' = AWAITING_PASSENGER_DETAILS
          \<longrightarrow> conversation_state s = SEARCH_DONE
              \<and> (\<exists>chosen \<in> set (last_flights s). selected_flight s' = Some chosen))
    \<and> (\<forall>t s'. loop_body to_float t s = Inr s'
            \<and> conversation_state s = AWAITING_PASSENGER_DETAILS
            \<and> conversation_state s' \<noteq> AWAITING_PASSENGER_DETAILS
          \<longrightarrow> conversation_state s' = IDLE \<and> selected_flight s' = None)"
proof (intro conjI allI impI)
  assume "conversation_state s = AWAITING_PASSENGER_DETAILS"
  then show "selected_flight s \<noteq> None"
    using reachable_inv [OF assms] by (simp add: session_inv_def)
next
  fix t s'
  assume a: "loop_body to_float t s = Inr s'
            \<and> conversation_state s \<noteq> AWAITING_PASSENGER_DETAILS
            \<and> conversation_state s' = AWAITING_PASSENGER_DETAILS"
  then have sel: "conversation_state s = SEARCH_DONE
      \<and> select_branch (lower (user_input t)) s = Inr s'"
    using loop_body_cases [of to_float t s s']
    by (auto dest!: search_branch_cases)
  then show "conversation_state s = SEARCH_DONE" by simp
  from sel select_branch_cases [of "lower (user_input t)" s s']
  show "\<exists>chosen \<in> set (last_flights s). selected_flight s' = Some chosen"
    by auto
next
  fix t s'
  assume a: "loop_body to_float t s = Inr s'
            \<and> conversation_state s = AWAITING_PASSENGER_DETAILS
            \<and> conversation_state s' \<noteq> AWAITING_PASSENGER_DETAILS"
  then have "booking_branch t s = Inr s'"
    using loop_body_cases [of to_float t s s'] by auto
  from booking_branch_cases [OF this] a
  show "conversation_state s' = IDLE" and "selected_flight s' = None"
    by auto
qed

theorem awaiting_has_selection_witness:
  "reachable float_of_int awaiting_session
   \<and> conversation_state awaiting_session = AWAITING_PASSENGER_DETAILS
   \<and> selected_flight awaiting_session = Some offer_a
   \<and> loop_body float_of_int select_turn searched_session = Inr awaiting_session
   \<and> conversation_state searched_session = SEARCH_DONE
   \<and> offer_a \<in> set (last_flights searched_session)
   \<and> loop_body float_of_int booking_turn awaiting_session = Inr initial
   \<and> conversation_state initial = IDLE \<and> selected_flight initial = None"
  using awaiting_has_selection [OF reachable_awaiting] awaiting_has_selection [OF reachable_searched]
    reachable_awaiting run_select run_booking
  by (simp add: awaiting_session_def searched_session_def initial_def)

section \<open>The offer number is not checked against the list\<close>






















section \<open>The booking and the reset of the session\<close>




section \<open>The gateway to the tool server\<close>

text \<open>The gateway of \<^verbatim>\<open>server_mcp.py\<close> turns a failure into a dictionary with the key
  \<^verbatim>\<open>error\<close>.\<close>

lemma post_request_marks_failures:
  "post_request ConnectionFailure = JObj [(''error'', JStr ''RequestException'')]
   \<and> post_request (HttpResponse 500 None) = JObj [(''error'', JStr ''HTTPError'')]
   \<and> post_request (HttpResponse 200 None) = JObj [(''error'', JStr ''JSONDecodeError'')]"
  by (simp add: post_request_def)

text \<open>
  C2.  \<^verbatim>\<open>search_flights\<close> of \<^verbatim>\<open>ai_agent.py\<close> has no handler.  When the tool server cannot be
  reached the call raises the exception of \<^verbatim>\<open>requests\<close>, and the turn of the loop that made
  the search raises it too: the program ends, there is no error marker and no session in state
  \<^verbatim>\<open>IDLE\<close>.  The same holds for a reply of status 502 whose body is not JSON.
\<close>

theorem search_connection_error_raises:
  "search_flights (\<lambda>name args. ConnectionFailure)
       [(''origin'', JStr ''BOM''), (''destination'', JStr ''DEL''),
        (''departDate'', JStr ''2026-12-05''),
        (''tripType'', JStr ''ONEWAY''), (''adults'', JInt 1), (''cabin'', JStr ''ECONOMY'')]
     = Inl RequestException
   \<and> loop_body float_of_int (search_turn\<lparr>tool_server := (\<lambda>name args. ConnectionFailure)\<rparr>)
         initial = Inl RequestException
   \<and> loop_body float_of_int (search_turn\<lparr>tool_server := (\<lambda>name args. HttpResponse 502 None)\<rparr>)
         initial = Inl JSONDecodeError"
  by (simp add: loop_body_def search_turn_def initial_def intent_search
      extract_search_turn search_branch_def search_flights_def post_json_def Let_def)

section \<open>The booking verbs decide the intent\<close>

lemma starts_with_append: "starts_with s w \<Longrightarrow> s = w @ drop (length w) s"
  by (induction s w rule: starts_with.induct) auto

lemma verb_book_here:
  assumes "word_here ''book'' p s"
  shows "first_groups (rmatch False book_verb_re (p, s, Map.empty)) \<noteq> None"
proof -
  define rest where "rest = drop (length ''book'') s"
  have sw: "starts_with s ''book''"
    using assms by (simp add: word_here_def)
  have s: "s = ''book'' @ rest"
    unfolding rest_def by (rule starts_with_append [OF sw])
  have p: "\<not> word_before p"
    using assms by (auto simp: word_here_def word_before_def split: option.splits)
  have a: "\<not> word_after rest"
    using assms unfolding rest_def
    by (auto simp: word_here_def word_after_def split: list.splits)
  have k: "is_word (CHR ''k'')" "is_word (CHR ''b'')" by code_simp+
  show ?thesis
    using p a k
    by (simp add: s book_verb_re_def first_groups_def consume_def same_text_def
        word_before_def word_after_def)
qed

lemma verb_reserve_here:
  assumes "word_here ''reserve'' p s"
  shows "first_groups (rmatch False book_verb_re (p, s, Map.empty)) \<noteq> None"
proof -
  define rest where "rest = drop (length ''reserve'') s"
  have sw: "starts_with s ''reserve''"
    using assms by (simp add: word_here_def)
  have s: "s = ''reserve'' @ rest"
    unfolding rest_def by (rule starts_with_append [OF sw])
  have p: "\<not> word_before p"
    using assms by (auto simp: word_here_def word_before_def split: option.splits)
  have a: "\<not> word_after rest"
    using assms unfolding rest_def
    by (auto simp: word_here_def word_after_def split: list.splits)
  have k: "is_word (CHR ''e'')" "is_word (CHR ''r'')" by code_simp+
  show ?thesis
    using p a k
    by (simp add: s book_verb_re_def first_groups_def consume_def same_text_def
        word_before_def word_after_def)
qed

lemma search_finds_verb:
  assumes "whole_word_from ''book'' p s \<or> whole_word_from ''reserve'' p s"
  shows "search_from False book_verb_re p s \<noteq> None"
  using assms
proof (induction s arbitrary: p)
  case Nil
  then show ?case
    using verb_book_here [of p "[]"] verb_reserve_here [of p "[]"] by auto
next
  case (Cons c s)
  show ?case
  proof (cases "word_here ''book'' p (c # s) \<or> word_here ''reserve'' p (c # s)")
    case True
    then have "first_groups (rmatch False book_verb_re (p, c # s, Map.empty)) \<noteq> None"
      using verb_book_here verb_reserve_here by blast
    then show ?thesis by (auto split: option.splits)
  next
    case False
    then have "whole_word_from ''book'' (Some c) s \<or> whole_word_from ''reserve'' (Some c) s"
      using Cons.prems by auto
    then have "search_from False book_verb_re (Some c) s \<noteq> None"
      by (rule Cons.IH)
    then show ?thesis by (auto split: option.splits)
  qed
qed

text \<open>
  C4.  When the lowered input contains \<^verbatim>\<open>book\<close> or \<^verbatim>\<open>reserve\<close> as a whole word,
  \<open>detect_intent\<close> returns \<^verbatim>\<open>BOOK_FLIGHT\<close> whatever the language model would answer, also
  when the call of the model would raise: the model is not asked.
\<close>

theorem booking_verb_decides_intent:
  assumes "contains_word ''book'' (lower line)
           \<or> contains_word ''reserve'' (lower line)"
  shows "detect_intent line oracle = Inr ''BOOK_FLIGHT''"
  using search_finds_verb [of None "lower line"] assms
  by (simp add: detect_intent_def contains_word_def re_search_def Let_def)

lemma contains_book: "contains_word ''book'' (lower ''Please BOOK it, now'')"
  by code_simp

lemma contains_reserve: "contains_word ''reserve'' (lower ''Can you reserve?'')"
  by code_simp

theorem booking_verb_decides_intent_witness:
  "contains_word ''book'' (lower ''Please BOOK it, now'')
   \<and> detect_intent ''Please BOOK it, now'' (Inl OracleError) = Inr ''BOOK_FLIGHT''
   \<and> detect_intent ''Please BOOK it, now'' (Inr ''SEARCH_FLIGHTS'') = Inr ''BOOK_FLIGHT''
   \<and> contains_word ''reserve'' (lower ''Can you reserve?'')
   \<and> detect_intent ''Can you reserve?'' (Inr ''GENERAL_CHAT'') = Inr ''BOOK_FLIGHT''"
  using booking_verb_decides_intent [of "''Please BOOK it, now''" "Inl OracleError"]
    booking_verb_decides_intent [of "''Please BOOK it, now''" "Inr ''SEARCH_FLIGHTS''"]
    booking_verb_decides_intent [of "''Can you reserve?''" "Inr ''GENERAL_CHAT''"]
    contains_book contains_reserve
  by simp

section \<open>The year of the departure date\<close>



section \<open>The passenger line\<close>

lemma in_cls_simps [simp]:
  "in_cls WordChar = is_word" "in_cls Space = is_space" "in_cls Digit = is_digit"
  by (auto simp: fun_eq_iff)































end
